theory Spec2Isabelle
  imports Complex_Main "HOL-Library.Multiset"
begin

section \<open>The password generator and its strength analysis\<close>

text \<open>
  A shallow embedding of \<^verbatim>\<open>PasswordGenerator\<close> from
  \<^verbatim>\<open>password-generator/password_generator.py\<close>. Python strings are modelled as
  \<^typ>\<open>string\<close>, Python integers as \<^typ>\<open>int\<close>, and the operating system's
  randomness as an explicit source that is threaded through every call and counts the
  draws made from it. Python floats are idealised as \<^typ>\<open>real\<close>; the two comparisons
  of \<^verbatim>\<open>check_strength\<close> that involve floats are discussed where they are defined.
\<close>

subsection \<open>The randomness source\<close>

text \<open>
  \<^verbatim>\<open>secrets.choice\<close> and \<^verbatim>\<open>secrets.SystemRandom().shuffle\<close> belong to
  Python's standard library. Both reduce to \<^verbatim>\<open>_randbelow(n)\<close>, which yields a number
  below \<open>n\<close>. The source is an infinite sequence \<open>feed\<close> of raw values together with the
  number \<open>draws\<close> of values consumed so far; one call of \<open>randbelow\<close> consumes one value.
\<close>

record rand_source =
  feed :: "nat \<Rightarrow> nat"
  draws :: nat

text \<open>
  The three \<^verbatim>\<open>ValueError\<close>s that \<^verbatim>\<open>generate_password\<close> raises (the
  configuration errors of the specification), the last with the two numbers of its message,
  and the \<^verbatim>\<open>IndexError\<close> of \<^verbatim>\<open>choice\<close>.
\<close>

datatype error =
    ValueError_length
  | ValueError_no_types
  | ValueError_minimum nat int
  | IndexError_empty

type_synonym 'a rand = "rand_source \<Rightarrow> (error + 'a) \<times> rand_source"

definition randbelow :: "nat \<Rightarrow> rand_source \<Rightarrow> nat \<times> rand_source" where
  "randbelow n s = (feed s (draws s) mod n, s\<lparr>draws := Suc (draws s)\<rparr>)"

text \<open>
  \<^verbatim>\<open>choice(seq)\<close> raises \<^verbatim>\<open>IndexError\<close> on an empty sequence, before drawing,
  and returns \<^verbatim>\<open>seq[_randbelow(len(seq))]\<close> otherwise.
\<close>

definition choice :: "'a list \<Rightarrow> 'a rand" where
  "choice seq s =
     (if seq = [] then (Inl IndexError_empty, s)
      else (case randbelow (length seq) s of (i, s') \<Rightarrow> (Inr (seq ! i), s')))"

text \<open>The comprehension \<^verbatim>\<open>[secrets.choice(chars) for _ in range(n)]\<close>.\<close>

fun choices :: "'a list \<Rightarrow> nat \<Rightarrow> 'a list rand" where
  "choices seq 0 s = (Inr [], s)"
| "choices seq (Suc n) s =
     (case choice seq s of
        (Inl e, s') \<Rightarrow> (Inl e, s')
      | (Inr c, s') \<Rightarrow>
          (case choices seq n s' of
             (Inl e, s'') \<Rightarrow> (Inl e, s'')
           | (Inr cs, s'') \<Rightarrow> (Inr (c # cs), s'')))"

text \<open>
  \<^verbatim>\<open>shuffle(x)\<close> is the standard library's Fisher--Yates loop
  \<^verbatim>\<open>for i in reversed(range(1, len(x))): j = randbelow(i + 1); x[i], x[j] = x[j], x[i]\<close>.
\<close>

fun shuffle_from :: "nat \<Rightarrow> 'a list \<Rightarrow> rand_source \<Rightarrow> 'a list \<times> rand_source" where
  "shuffle_from 0 x s = (x, s)"
| "shuffle_from (Suc i) x s =
     (case randbelow (Suc i + 1) s of
        (j, s') \<Rightarrow> shuffle_from i (x[Suc i := x ! j, j := x ! Suc i]) s')"

definition shuffle :: "'a list \<Rightarrow> rand_source \<Rightarrow> 'a list \<times> rand_source" where
  "shuffle x s = shuffle_from (length x - 1) x s"

subsection \<open>The generator\<close>

definition lowercase :: string where
  "lowercase = ''abcdefghijklmnopqrstuvwxyz''"

definition uppercase :: string where
  "uppercase = ''ABCDEFGHIJKLMNOPQRSTUVWXYZ''"

definition digits :: string where
  "digits = ''0123456789''"

definition special_chars :: string where
  "special_chars = ''!@#$%^&*()-_+=[]{}|;:,.<>?''"

definition ambiguous_chars :: string where
  "ambiguous_chars = ''il1Lo0O''"

record request =
  length_arg :: int
  include_uppercase :: bool
  include_lowercase :: bool
  include_digits :: bool
  include_special :: bool
  exclude_ambiguous :: bool
  custom_chars :: string
  min_uppercase :: int
  min_lowercase :: int
  min_digits :: int
  min_special :: int

text \<open>
  \<^verbatim>\<open>''.join(c for c in chars if c not in self.ambiguous_chars)\<close>, applied when
  \<^verbatim>\<open>exclude_ambiguous\<close> is set.
\<close>

definition effective :: "bool \<Rightarrow> string \<Rightarrow> string" where
  "effective excl chars =
     (if excl then filter (\<lambda>c. c \<notin> set ambiguous_chars) chars else chars)"

text \<open>
  One \<^verbatim>\<open>if include_...:\<close> block of \<^verbatim>\<open>generate_password\<close>: the class's characters
  are appended to \<^verbatim>\<open>char_pool\<close> and \<^verbatim>\<open>range(minimum)\<close> draws from them are
  appended to \<^verbatim>\<open>required_chars\<close>. A negative \<^verbatim>\<open>minimum\<close> gives an empty range.
\<close>

definition class_block ::
  "bool \<Rightarrow> string \<Rightarrow> int \<Rightarrow> string \<times> char list \<Rightarrow> (string \<times> char list) rand" where
  "class_block included chars minimum st s =
     (if included then
        (case choices chars (nat minimum) s of
           (Inl e, s') \<Rightarrow> (Inl e, s')
         | (Inr cs, s') \<Rightarrow> (Inr (fst st @ chars, snd st @ cs), s'))
      else (Inr st, s))"

definition bind :: "'a rand \<Rightarrow> ('a \<Rightarrow> 'b rand) \<Rightarrow> 'b rand" where
  "bind m f s = (case m s of (Inl e, s') \<Rightarrow> (Inl e, s') | (Inr a, s') \<Rightarrow> f a s')"

text \<open>The part of \<^verbatim>\<open>generate_password\<close> after the four class blocks.\<close>

definition finish :: "request \<Rightarrow> string \<times> char list \<Rightarrow> string rand" where
  "finish rq st s =
     (let char_pool = fst st @ custom_chars rq;
          required_chars = snd st
      in if char_pool = [] then (Inl ValueError_no_types, s)
         else
           let total_min_chars = length required_chars
           in if int total_min_chars > length_arg rq
              then (Inl (ValueError_minimum total_min_chars (length_arg rq)), s)
              else
                let remaining_length = length_arg rq - int total_min_chars
                in bind (choices char_pool (nat remaining_length))
                     (\<lambda>filler s'. case shuffle (required_chars @ filler) s' of
                                     (password_chars, s'') \<Rightarrow> (Inr password_chars, s'')) s)"

text \<open>The four class blocks in the order of the source: lowercase, uppercase, digits, special.\<close>

definition build :: "request \<Rightarrow> (string \<times> char list) rand" where
  "build rq =
     bind (class_block (include_lowercase rq)
            (effective (exclude_ambiguous rq) lowercase) (min_lowercase rq) ([], []))
      (\<lambda>st. bind (class_block (include_uppercase rq)
                    (effective (exclude_ambiguous rq) uppercase) (min_uppercase rq) st)
      (\<lambda>st. bind (class_block (include_digits rq)
                    (effective (exclude_ambiguous rq) digits) (min_digits rq) st)
      (\<lambda>st. class_block (include_special rq) special_chars (min_special rq) st)))"

definition generate_password :: "request \<Rightarrow> string rand" where
  "generate_password rq s =
     (if length_arg rq < 4 then (Inl ValueError_length, s)
      else bind (build rq) (finish rq) s)"

subsection \<open>The analyzer\<close>

record analysis =
  length_key :: nat
  has_lowercase :: bool
  has_uppercase :: bool
  has_digits :: bool
  has_special :: bool
  has_ambiguous :: bool
  unique_chars :: nat
  entropy :: real
  strength :: string

text \<open>The dictionary as \<^verbatim>\<open>check_strength\<close> first builds it.\<close>

definition initial_analysis :: "string \<Rightarrow> analysis" where
  "initial_analysis password =
     \<lparr> length_key = length password,
       has_lowercase = list_ex (\<lambda>c. c \<in> set lowercase) password,
       has_uppercase = list_ex (\<lambda>c. c \<in> set uppercase) password,
       has_digits = list_ex (\<lambda>c. c \<in> set digits) password,
       has_special = list_ex (\<lambda>c. c \<in> set special_chars) password,
       has_ambiguous = list_ex (\<lambda>c. c \<in> set ambiguous_chars) password,
       unique_chars = length (remdups password),
       entropy = 0,
       strength = ''Very Weak'' \<rparr>"

definition char_pool_size :: "analysis \<Rightarrow> nat" where
  "char_pool_size a =
     (let n = 0;
          n = (if has_lowercase a then n + 26 else n);
          n = (if has_uppercase a then n + 26 else n);
          n = (if has_digits a then n + 10 else n);
          n = (if has_special a then n + length special_chars else n)
      in n)"

text \<open>\<^verbatim>\<open>math.log2\<close> raises \<^verbatim>\<open>ValueError\<close> outside its domain.\<close>

datatype math_error = Math_domain_error

definition log2 :: "nat \<Rightarrow> math_error + real" where
  "log2 x = (if x = 0 then Inl Math_domain_error else Inr (log 2 (real x)))"

text \<open>
  The score. Its last two tests involve floats in the source:
  \<^verbatim>\<open>unique_chars >= len(password) * 0.8\<close> and \<^verbatim>\<open>entropy >= 60\<close>; here they are
  comparisons of reals, with \<open>0.8\<close> the exact fraction and \<open>log\<close> the exact logarithm.
\<close>

definition score :: "string \<Rightarrow> analysis \<Rightarrow> nat" where
  "score password a =
     (let n = 0;
          n = (if length_key a \<ge> 8 then n + 1 else n);
          n = (if length_key a \<ge> 12 then n + 1 else n);
          n = (if has_lowercase a then n + 1 else n);
          n = (if has_uppercase a then n + 1 else n);
          n = (if has_digits a then n + 1 else n);
          n = (if has_special a then n + 1 else n);
          n = (if real (unique_chars a) \<ge> real (length password) * 0.8 then n + 1 else n);
          n = (if entropy a \<ge> 60 then n + 1 else n)
      in n)"

definition label :: "nat \<Rightarrow> string" where
  "label n =
     (if n \<le> 2 then ''Very Weak''
      else if n \<le> 4 then ''Weak''
      else if n \<le> 6 then ''Moderate''
      else if n \<le> 7 then ''Strong''
      else ''Very Strong'')"

text \<open>
  \<^verbatim>\<open>check_strength\<close>, returning next to the dictionary the two local variables
  \<^verbatim>\<open>char_pool_size\<close> and \<^verbatim>\<open>score\<close> that the dictionary does not keep.
\<close>

definition check_strength_vars :: "string \<Rightarrow> math_error + analysis \<times> nat \<times> nat" where
  "check_strength_vars password =
     (let a = initial_analysis password;
          pool = char_pool_size a
      in case (if pool > 0 then
                 (case log2 pool of
                    Inl e \<Rightarrow> Inl e
                  | Inr l \<Rightarrow> Inr (a\<lparr>entropy := real (length password) * l\<rparr>))
               else Inr a) of
           Inl e \<Rightarrow> Inl e
         | Inr a \<Rightarrow>
             (let n = score password a in Inr (a\<lparr>strength := label n\<rparr>, pool, n)))"

definition check_strength :: "string \<Rightarrow> math_error + analysis" where
  "check_strength password =
     (case check_strength_vars password of Inl e \<Rightarrow> Inl e | Inr (a, pool, n) \<Rightarrow> Inr a)"

subsection \<open>Notions used to state the properties\<close>

text \<open>
  In the words of the specification: the number of required characters a class asks for
  (none when the class is excluded, none for a negative minimum), their total over the
  four classes, a class's contribution to the pool, and the candidate pool, which is the
  concatenation of the included classes' effective alphabets and the custom characters.
  The lemmas on the outcomes of the generator relate them to what
  \<^verbatim>\<open>generate_password\<close> computes.
\<close>

definition min_count :: "bool \<Rightarrow> int \<Rightarrow> nat" where
  "min_count included minimum = (if included then nat minimum else 0)"

definition min_sum :: "request \<Rightarrow> nat" where
  "min_sum rq =
     min_count (include_lowercase rq) (min_lowercase rq) +
     min_count (include_uppercase rq) (min_uppercase rq) +
     min_count (include_digits rq) (min_digits rq) +
     min_count (include_special rq) (min_special rq)"

definition class_chars :: "bool \<Rightarrow> string \<Rightarrow> string" where
  "class_chars included chars = (if included then chars else [])"

definition candidate_pool :: "request \<Rightarrow> string" where
  "candidate_pool rq =
     class_chars (include_lowercase rq) (effective (exclude_ambiguous rq) lowercase) @
     class_chars (include_uppercase rq) (effective (exclude_ambiguous rq) uppercase) @
     class_chars (include_digits rq) (effective (exclude_ambiguous rq) digits) @
     class_chars (include_special rq) special_chars @
     custom_chars rq"

text \<open>The source after \<open>n\<close> further draws.\<close>

definition advance :: "nat \<Rightarrow> rand_source \<Rightarrow> rand_source" where
  "advance n s = s\<lparr>draws := draws s + n\<rparr>"

text \<open>The sum of the minimum counts of the included classes, as plain integers.\<close>

definition plain_min_sum :: "request \<Rightarrow> int" where
  "plain_min_sum rq =
     (if include_lowercase rq then min_lowercase rq else 0) +
     (if include_uppercase rq then min_uppercase rq else 0) +
     (if include_digits rq then min_digits rq else 0) +
     (if include_special rq then min_special rq else 0)"

text \<open>How many characters of a password lie in an alphabet.\<close>

definition count_in :: "string \<Rightarrow> string \<Rightarrow> nat" where
  "count_in alphabet pw = length (filter (\<lambda>c. c \<in> set alphabet) pw)"

text \<open>
  In the words of the specification: the effective alphabet of a class is its reference
  alphabet, without the characters i, l, 1, L, o, 0 and O when ambiguous characters are
  excluded; and the number of characters of a password that lie in a set.
\<close>

definition effective_alphabet :: "bool \<Rightarrow> string \<Rightarrow> char set" where
  "effective_alphabet excl reference =
     {c \<in> set reference.
        excl \<longrightarrow> c \<notin> {CHR ''i'', CHR ''l'', CHR ''1'', CHR ''L'', CHR ''o'', CHR ''0'', CHR ''O''}}"

definition count_of :: "char set \<Rightarrow> string \<Rightarrow> nat" where
  "count_of A pw = length (filter (\<lambda>c. c \<in> A) pw)"

text \<open>
  The defaults of \<^verbatim>\<open>generate_password\<close>'s parameters, and a randomness source whose
  raw values are \<open>2, 3, 6, 11, 18, \<dots>\<close>.
\<close>

definition default_request :: request where
  "default_request =
     \<lparr> length_arg = 12, include_uppercase = True, include_lowercase = True,
       include_digits = True, include_special = True, exclude_ambiguous = False,
       custom_chars = [], min_uppercase = 1, min_lowercase = 1, min_digits = 1,
       min_special = 1 \<rparr>"

definition squares :: rand_source where
  "squares = \<lparr> feed = (\<lambda>n. n * n + 2), draws = 0 \<rparr>"

text \<open>The local variable \<^verbatim>\<open>score\<close> of a run of \<^verbatim>\<open>check_strength\<close>.\<close>

definition score_of :: "string \<Rightarrow> nat option" where
  "score_of password =
     (case check_strength_vars password of Inl e \<Rightarrow> None | Inr (a, pool, n) \<Rightarrow> Some n)"

text \<open>A request that excludes the ambiguous characters and asks for four lowercase letters.\<close>

definition filtered_request :: request where
  "filtered_request =
     default_request\<lparr>length_arg := 8, exclude_ambiguous := True, min_lowercase := 4\<rparr>"

text \<open>A request whose four minimum counts are negative.\<close>

definition negative_request :: request where
  "negative_request =
     default_request\<lparr>length_arg := 5, min_uppercase := -2, min_lowercase := -1,
       min_digits := -3, min_special := -4\<rparr>"

section \<open>Properties of the randomness source\<close>

lemma advance_0 [simp]: "advance 0 s = s"
  by (simp add: advance_def)

lemma advance_advance [simp]: "advance m (advance n s) = advance (n + m) s"
  by (simp add: advance_def add.assoc)

lemma draws_advance [simp]: "draws (advance n s) = draws s + n"
  by (simp add: advance_def)

lemma feed_advance [simp]: "feed (advance n s) = feed s"
  by (simp add: advance_def)

lemma choice_ok:
  assumes "seq \<noteq> []"
  shows "\<exists>c. choice seq s = (Inr c, advance 1 s) \<and> c \<in> set seq"
  using assms by (simp add: choice_def randbelow_def advance_def)

lemma choices_ok:
  assumes "seq \<noteq> []"
  shows "\<exists>cs. choices seq n s = (Inr cs, advance n s) \<and> length cs = n \<and> set cs \<subseteq> set seq"
proof (induction n arbitrary: s)
  case 0
  show ?case by simp
next
  case (Suc n)
  obtain c where c: "choice seq s = (Inr c, advance 1 s)" "c \<in> set seq"
    using choice_ok [OF assms] by blast
  obtain cs where cs: "choices seq n (advance 1 s) = (Inr cs, advance n (advance 1 s))"
      "length cs = n" "set cs \<subseteq> set seq"
    using Suc.IH by blast
  have "choices seq (Suc n) s = (Inr (c # cs), advance (Suc n) s)"
    using c cs by simp
  then show ?case using c cs by simp
qed

lemma shuffle_from_ok:
  assumes "i < length x"
  shows "\<exists>y. shuffle_from i x s = (y, advance i s) \<and> mset y = mset x"
  using assms
proof (induction i arbitrary: x s)
  case 0
  show ?case by simp
next
  case (Suc i)
  define j where "j = feed s (draws s) mod (Suc i + 1)"
  have "j < Suc i + 1" unfolding j_def by (rule mod_less_divisor) simp
  then have j: "j < length x" using Suc.prems by linarith
  define x' where "x' = x[Suc i := x ! j, j := x ! Suc i]"
  have m: "mset x' = mset x"
    unfolding x'_def using mset_swap [of j x "Suc i"] j Suc.prems by simp
  have "i < length x'" using Suc.prems by (simp add: x'_def)
  then obtain y where y: "shuffle_from i x' (advance 1 s) = (y, advance i (advance 1 s))" "mset y = mset x'"
    using Suc.IH by blast
  have "shuffle_from (Suc i) x s = (y, advance (Suc i) s)"
    using y by (simp add: randbelow_def j_def x'_def advance_def)
  then show ?case using y m by simp
qed

lemma shuffle_ok: "\<exists>y. shuffle x s = (y, advance (length x - 1) s) \<and> mset y = mset x"
proof (cases x)
  case Nil
  then show ?thesis by (simp add: shuffle_def)
next
  case (Cons a as)
  then have "length x - 1 < length x" by simp
  then show ?thesis unfolding shuffle_def by (rule shuffle_from_ok)
qed

section \<open>The outcomes of the generator\<close>

lemma effective_nonempty:
  "effective excl lowercase \<noteq> []" "effective excl uppercase \<noteq> []"
  "effective excl digits \<noteq> []" "special_chars \<noteq> []"
  by (simp_all add: effective_def lowercase_def uppercase_def digits_def special_chars_def
      ambiguous_chars_def)

lemma class_block_ok:
  assumes "chars \<noteq> []"
  shows "\<exists>cs. class_block included chars minimum st s =
           (Inr (fst st @ class_chars included chars, snd st @ cs),
            advance (min_count included minimum) s) \<and>
         length cs = min_count included minimum \<and> set cs \<subseteq> set chars"
proof (cases included)
  case True
  obtain cs where "choices chars (nat minimum) s = (Inr cs, advance (nat minimum) s)"
      "length cs = nat minimum" "set cs \<subseteq> set chars"
    using choices_ok [OF assms] by blast
  then show ?thesis using True by (simp add: class_block_def class_chars_def min_count_def)
next
  case False
  then show ?thesis by (simp add: class_block_def class_chars_def min_count_def)
qed

lemma build_ok:
  "\<exists>r1 r2 r3 r4.
     build rq s = (Inr (class_chars (include_lowercase rq) (effective (exclude_ambiguous rq) lowercase) @
                        class_chars (include_uppercase rq) (effective (exclude_ambiguous rq) uppercase) @
                        class_chars (include_digits rq) (effective (exclude_ambiguous rq) digits) @
                        class_chars (include_special rq) special_chars,
                        r1 @ r2 @ r3 @ r4), advance (min_sum rq) s) \<and>
     length r1 = min_count (include_lowercase rq) (min_lowercase rq) \<and>
     set r1 \<subseteq> set (effective (exclude_ambiguous rq) lowercase) \<and>
     length r2 = min_count (include_uppercase rq) (min_uppercase rq) \<and>
     set r2 \<subseteq> set (effective (exclude_ambiguous rq) uppercase) \<and>
     length r3 = min_count (include_digits rq) (min_digits rq) \<and>
     set r3 \<subseteq> set (effective (exclude_ambiguous rq) digits) \<and>
     length r4 = min_count (include_special rq) (min_special rq) \<and>
     set r4 \<subseteq> set special_chars"
proof -
  let ?e = "exclude_ambiguous rq"
  obtain r1 where r1: "class_block (include_lowercase rq) (effective ?e lowercase) (min_lowercase rq) ([], []) s
      = (Inr ([] @ class_chars (include_lowercase rq) (effective ?e lowercase), [] @ r1),
         advance (min_count (include_lowercase rq) (min_lowercase rq)) s)"
    "length r1 = min_count (include_lowercase rq) (min_lowercase rq)"
    "set r1 \<subseteq> set (effective ?e lowercase)"
    using class_block_ok [OF effective_nonempty(1), of "include_lowercase rq" ?e "min_lowercase rq" "([], [])" s]
    by auto
  let ?st1 = "([] @ class_chars (include_lowercase rq) (effective ?e lowercase), [] @ r1)"
  let ?s1 = "advance (min_count (include_lowercase rq) (min_lowercase rq)) s"
  obtain r2 where r2: "class_block (include_uppercase rq) (effective ?e uppercase) (min_uppercase rq) ?st1 ?s1
      = (Inr (fst ?st1 @ class_chars (include_uppercase rq) (effective ?e uppercase), snd ?st1 @ r2),
         advance (min_count (include_uppercase rq) (min_uppercase rq)) ?s1)"
    "length r2 = min_count (include_uppercase rq) (min_uppercase rq)"
    "set r2 \<subseteq> set (effective ?e uppercase)"
    using class_block_ok [OF effective_nonempty(2), of "include_uppercase rq" ?e "min_uppercase rq" ?st1 ?s1]
    by blast
  let ?st2 = "(fst ?st1 @ class_chars (include_uppercase rq) (effective ?e uppercase), snd ?st1 @ r2)"
  let ?s2 = "advance (min_count (include_uppercase rq) (min_uppercase rq)) ?s1"
  obtain r3 where r3: "class_block (include_digits rq) (effective ?e digits) (min_digits rq) ?st2 ?s2
      = (Inr (fst ?st2 @ class_chars (include_digits rq) (effective ?e digits), snd ?st2 @ r3),
         advance (min_count (include_digits rq) (min_digits rq)) ?s2)"
    "length r3 = min_count (include_digits rq) (min_digits rq)"
    "set r3 \<subseteq> set (effective ?e digits)"
    using class_block_ok [OF effective_nonempty(3), of "include_digits rq" ?e "min_digits rq" ?st2 ?s2]
    by blast
  let ?st3 = "(fst ?st2 @ class_chars (include_digits rq) (effective ?e digits), snd ?st2 @ r3)"
  let ?s3 = "advance (min_count (include_digits rq) (min_digits rq)) ?s2"
  obtain r4 where r4: "class_block (include_special rq) special_chars (min_special rq) ?st3 ?s3
      = (Inr (fst ?st3 @ class_chars (include_special rq) special_chars, snd ?st3 @ r4),
         advance (min_count (include_special rq) (min_special rq)) ?s3)"
    "length r4 = min_count (include_special rq) (min_special rq)"
    "set r4 \<subseteq> set special_chars"
    using class_block_ok [OF effective_nonempty(4), of "include_special rq" "min_special rq" ?st3 ?s3]
    by blast
  have "build rq s = (Inr (fst ?st3 @ class_chars (include_special rq) special_chars, snd ?st3 @ r4),
         advance (min_count (include_special rq) (min_special rq)) ?s3)"
    unfolding build_def bind_def by (simp only: r1(1) r2(1) r3(1) r4(1) prod.case sum.case)
  then have "build rq s = (Inr (class_chars (include_lowercase rq) (effective ?e lowercase) @
                        class_chars (include_uppercase rq) (effective ?e uppercase) @
                        class_chars (include_digits rq) (effective ?e digits) @
                        class_chars (include_special rq) special_chars,
                        r1 @ r2 @ r3 @ r4), advance (min_sum rq) s)"
    by (simp add: min_sum_def add.assoc)
  then show ?thesis using r1(2,3) r2(2,3) r3(2,3) r4(2,3) by blast
qed


lemma finish_ok:
  assumes "fst st @ custom_chars rq \<noteq> []" and "int (length (snd st)) \<le> length_arg rq"
  shows "\<exists>filler pw.
           finish rq st s =
             (Inr pw, advance (nat (length_arg rq) - length (snd st) + (nat (length_arg rq) - 1)) s) \<and>
           mset pw = mset (snd st @ filler) \<and>
           length filler = nat (length_arg rq) - length (snd st) \<and>
           set filler \<subseteq> set (fst st @ custom_chars rq)"
proof -
  let ?pool = "fst st @ custom_chars rq"
  let ?k = "nat (length_arg rq - int (length (snd st)))"
  have k: "?k = nat (length_arg rq) - length (snd st)" by simp
  obtain filler where f: "choices ?pool ?k s = (Inr filler, advance ?k s)"
      "length filler = ?k" "set filler \<subseteq> set ?pool"
    using choices_ok [OF assms(1)] by blast
  obtain pw where p: "shuffle (snd st @ filler) (advance ?k s) =
      (pw, advance (length (snd st @ filler) - 1) (advance ?k s))" "mset pw = mset (snd st @ filler)"
    using shuffle_ok by blast
  have len: "length (snd st @ filler) = nat (length_arg rq)"
    using assms(2) f(2) by simp
  have "finish rq st s = (Inr pw, advance (length (snd st @ filler) - 1) (advance ?k s))"
    using assms f(1) p(1) by (simp add: finish_def bind_def Let_def)
  then have "finish rq st s = (Inr pw, advance (?k + (nat (length_arg rq) - 1)) s)"
    by (simp only: len advance_advance)
  then show ?thesis using p(2) f(2,3) k by metis
qed

lemma finish_no_types:
  assumes "fst st @ custom_chars rq = []"
  shows "finish rq st s = (Inl ValueError_no_types, s)"
  using assms by (simp add: finish_def)

lemma finish_minimum:
  assumes "fst st @ custom_chars rq \<noteq> []" and "int (length (snd st)) > length_arg rq"
  shows "finish rq st s = (Inl (ValueError_minimum (length (snd st)) (length_arg rq)), s)"
  using assms by (simp add: finish_def Let_def)

lemma candidate_pool_empty_min_sum:
  assumes "candidate_pool rq = []"
  shows "min_sum rq = 0"
proof -
  have "\<not> include_lowercase rq" "\<not> include_uppercase rq" "\<not> include_digits rq"
    "\<not> include_special rq"
    using assms effective_nonempty
    by (auto simp: candidate_pool_def class_chars_def)
  then show ?thesis by (simp add: min_sum_def min_count_def)
qed

lemma generate_password_short:
  assumes "length_arg rq < 4"
  shows "generate_password rq s = (Inl ValueError_length, s)"
  using assms by (simp add: generate_password_def)

lemma generate_password_no_types:
  assumes "\<not> length_arg rq < 4" and "candidate_pool rq = []"
  shows "generate_password rq s = (Inl ValueError_no_types, s)"
proof -
  obtain st where b: "build rq s = (Inr st, advance (min_sum rq) s)"
      "fst st @ custom_chars rq = candidate_pool rq"
    using build_ok [of rq s] by (auto simp: candidate_pool_def)
  have "generate_password rq s = finish rq st (advance (min_sum rq) s)"
    using assms(1) b(1) by (simp add: generate_password_def bind_def)
  then show ?thesis
    using finish_no_types [of st rq] b(2) assms(2) candidate_pool_empty_min_sum [OF assms(2)]
    by simp
qed

lemma generate_password_minimum:
  assumes "\<not> length_arg rq < 4" and "candidate_pool rq \<noteq> []"
    and "int (min_sum rq) > length_arg rq"
  shows "generate_password rq s =
           (Inl (ValueError_minimum (min_sum rq) (length_arg rq)), advance (min_sum rq) s)"
proof -
  obtain st where b: "build rq s = (Inr st, advance (min_sum rq) s)"
      "fst st @ custom_chars rq = candidate_pool rq" "length (snd st) = min_sum rq"
    using build_ok [of rq s] by (auto simp: candidate_pool_def min_sum_def)
  have "generate_password rq s = finish rq st (advance (min_sum rq) s)"
    using assms(1) b(1) by (simp add: generate_password_def bind_def)
  then show ?thesis
    using finish_minimum [of st rq] b(2,3) assms(2,3) by simp
qed

lemma generate_password_ok:
  assumes "\<not> length_arg rq < 4" and "candidate_pool rq \<noteq> []"
    and "int (min_sum rq) \<le> length_arg rq"
  shows "\<exists>pw r1 r2 r3 r4 filler.
     generate_password rq s = (Inr pw, advance (2 * nat (length_arg rq) - 1) s) \<and>
     mset pw = mset (r1 @ r2 @ r3 @ r4 @ filler) \<and>
     length r1 = min_count (include_lowercase rq) (min_lowercase rq) \<and>
     set r1 \<subseteq> set (effective (exclude_ambiguous rq) lowercase) \<and>
     length r2 = min_count (include_uppercase rq) (min_uppercase rq) \<and>
     set r2 \<subseteq> set (effective (exclude_ambiguous rq) uppercase) \<and>
     length r3 = min_count (include_digits rq) (min_digits rq) \<and>
     set r3 \<subseteq> set (effective (exclude_ambiguous rq) digits) \<and>
     length r4 = min_count (include_special rq) (min_special rq) \<and>
     set r4 \<subseteq> set special_chars \<and>
     length filler = nat (length_arg rq) - min_sum rq \<and>
     set filler \<subseteq> set (candidate_pool rq)"
proof -
  obtain cp r1 r2 r3 r4 where b: "build rq s = (Inr (cp, r1 @ r2 @ r3 @ r4), advance (min_sum rq) s)"
      "cp @ custom_chars rq = candidate_pool rq"
    and r: "length r1 = min_count (include_lowercase rq) (min_lowercase rq)"
      "set r1 \<subseteq> set (effective (exclude_ambiguous rq) lowercase)"
      "length r2 = min_count (include_uppercase rq) (min_uppercase rq)"
      "set r2 \<subseteq> set (effective (exclude_ambiguous rq) uppercase)"
      "length r3 = min_count (include_digits rq) (min_digits rq)"
      "set r3 \<subseteq> set (effective (exclude_ambiguous rq) digits)"
      "length r4 = min_count (include_special rq) (min_special rq)"
      "set r4 \<subseteq> set special_chars"
    using build_ok [of rq s] unfolding candidate_pool_def by (metis append.assoc)
  let ?st = "(cp, r1 @ r2 @ r3 @ r4)"
  have l: "length (snd ?st) = min_sum rq"
    using r by (simp add: min_sum_def)
  have g: "generate_password rq s = finish rq ?st (advance (min_sum rq) s)"
    using assms(1) b(1) by (simp add: generate_password_def bind_def)
  have 1: "fst ?st @ custom_chars rq \<noteq> []" using b(2) assms(2) by simp
  have 2: "int (length (snd ?st)) \<le> length_arg rq" using l assms(3) by simp
  obtain filler pw where f:
    "finish rq ?st (advance (min_sum rq) s) =
       (Inr pw, advance (nat (length_arg rq) - length (snd ?st) + (nat (length_arg rq) - 1))
          (advance (min_sum rq) s))"
    "mset pw = mset (snd ?st @ filler)"
    "length filler = nat (length_arg rq) - length (snd ?st)"
    "set filler \<subseteq> set (fst ?st @ custom_chars rq)"
    using finish_ok [OF 1 2] by blast
  have n: "min_sum rq + (nat (length_arg rq) - min_sum rq + (nat (length_arg rq) - 1))
      = 2 * nat (length_arg rq) - 1"
    using assms(1,3) by linarith
  have "generate_password rq s = (Inr pw, advance (2 * nat (length_arg rq) - 1) s)"
    using g f(1) by (simp only: l advance_advance n)
  moreover have "mset pw = mset (r1 @ r2 @ r3 @ r4 @ filler)" using f(2) by simp
  moreover have "length filler = nat (length_arg rq) - min_sum rq" using f(3) l by simp
  moreover have "set filler \<subseteq> set (candidate_pool rq)" using f(4) b(2) by simp
  ultimately show ?thesis using r by blast
qed


lemma generate_password_Inr:
  assumes "generate_password rq s = (Inr pw, s')"
  shows "\<not> length_arg rq < 4 \<and> candidate_pool rq \<noteq> [] \<and> int (min_sum rq) \<le> length_arg rq"
proof -
  have False if "length_arg rq < 4"
    using generate_password_short [OF that, of s] assms by simp
  moreover have False if "\<not> length_arg rq < 4" "candidate_pool rq = []"
    using generate_password_no_types [OF that, of s] assms by simp
  moreover have False if "\<not> length_arg rq < 4" "candidate_pool rq \<noteq> []" "int (min_sum rq) > length_arg rq"
    using generate_password_minimum [OF that, of s] assms by simp
  ultimately show ?thesis by force
qed

lemma generate_password_Inl:
  assumes "generate_password rq s = (Inl e, s')"
  shows "length_arg rq < 4 \<or> candidate_pool rq = [] \<or> int (min_sum rq) > length_arg rq"
proof (rule ccontr)
  assume "\<not> ?thesis"
  then have "\<not> length_arg rq < 4" "candidate_pool rq \<noteq> []" "int (min_sum rq) \<le> length_arg rq"
    by auto
  from generate_password_ok [OF this, of s] show False using assms by auto
qed


lemma generate_password_parts:
  assumes "fst (generate_password rq s) = Inr pw"
  shows "\<not> length_arg rq < 4 \<and> candidate_pool rq \<noteq> [] \<and> int (min_sum rq) \<le> length_arg rq \<and>
    snd (generate_password rq s) = advance (2 * nat (length_arg rq) - 1) s \<and>
    (\<exists>r1 r2 r3 r4 filler.
     mset pw = mset (r1 @ r2 @ r3 @ r4 @ filler) \<and>
     length r1 = min_count (include_lowercase rq) (min_lowercase rq) \<and>
     set r1 \<subseteq> set (effective (exclude_ambiguous rq) lowercase) \<and>
     length r2 = min_count (include_uppercase rq) (min_uppercase rq) \<and>
     set r2 \<subseteq> set (effective (exclude_ambiguous rq) uppercase) \<and>
     length r3 = min_count (include_digits rq) (min_digits rq) \<and>
     set r3 \<subseteq> set (effective (exclude_ambiguous rq) digits) \<and>
     length r4 = min_count (include_special rq) (min_special rq) \<and>
     set r4 \<subseteq> set special_chars \<and>
     length filler = nat (length_arg rq) - min_sum rq \<and>
     set filler \<subseteq> set (candidate_pool rq))"
proof -
  have g: "generate_password rq s = (Inr pw, snd (generate_password rq s))"
    using assms by (metis prod.collapse)
  have c: "\<not> length_arg rq < 4" "candidate_pool rq \<noteq> []" "int (min_sum rq) \<le> length_arg rq"
    using generate_password_Inr [OF g] by simp_all
  obtain pw' r1 r2 r3 r4 filler where
    r: "generate_password rq s = (Inr pw', advance (2 * nat (length_arg rq) - 1) s)"
     "mset pw' = mset (r1 @ r2 @ r3 @ r4 @ filler)"
     "length r1 = min_count (include_lowercase rq) (min_lowercase rq)"
     "set r1 \<subseteq> set (effective (exclude_ambiguous rq) lowercase)"
     "length r2 = min_count (include_uppercase rq) (min_uppercase rq)"
     "set r2 \<subseteq> set (effective (exclude_ambiguous rq) uppercase)"
     "length r3 = min_count (include_digits rq) (min_digits rq)"
     "set r3 \<subseteq> set (effective (exclude_ambiguous rq) digits)"
     "length r4 = min_count (include_special rq) (min_special rq)"
     "set r4 \<subseteq> set special_chars"
     "length filler = nat (length_arg rq) - min_sum rq"
     "set filler \<subseteq> set (candidate_pool rq)"
    using generate_password_ok [OF c, of s] by blast
  have "pw' = pw" "snd (generate_password rq s) = advance (2 * nat (length_arg rq) - 1) s"
    using r(1) assms by simp_all
  then show ?thesis using c r(2-) by blast
qed

lemma count_in_mset: "mset xs = mset ys \<Longrightarrow> count_in alphabet xs = count_in alphabet ys"
proof -
  assume "mset xs = mset ys"
  then have "mset (filter (\<lambda>c. c \<in> set alphabet) xs) = mset (filter (\<lambda>c. c \<in> set alphabet) ys)"
    by (simp only: mset_filter)
  then show ?thesis unfolding count_in_def by (rule mset_eq_length)
qed

lemma count_in_append: "count_in alphabet (xs @ ys) = count_in alphabet xs + count_in alphabet ys"
  by (simp add: count_in_def)

lemma count_in_all: "set xs \<subseteq> set alphabet \<Longrightarrow> count_in alphabet xs = length xs"
  unfolding count_in_def by (simp add: subset_iff)

lemma count_of_set: "count_of (set alphabet) pw = count_in alphabet pw"
  by (simp add: count_of_def count_in_def)

lemma set_effective: "set (effective excl reference) = effective_alphabet excl reference"
  by (auto simp: effective_def effective_alphabet_def ambiguous_chars_def)

lemma ambiguous_disjoint:
  "set (effective True lowercase) \<inter> set ambiguous_chars = {}"
  "set (effective True uppercase) \<inter> set ambiguous_chars = {}"
  "set (effective True digits) \<inter> set ambiguous_chars = {}"
  by (auto simp: effective_def)

lemma special_not_ambiguous: "set special_chars \<inter> set ambiguous_chars = {}"
  by (simp add: special_chars_def ambiguous_chars_def)

lemma ambiguous_from_custom:
  assumes run: "fst (generate_password rq s) = Inr pw" and e: "exclude_ambiguous rq"
    and c: "c \<in> set pw" "c \<in> set ambiguous_chars"
  shows "c \<in> set (custom_chars rq)"
proof -
  have e: "exclude_ambiguous rq = True" using e by simp
  obtain r1 r2 r3 r4 filler where
    m: "mset pw = mset (r1 @ r2 @ r3 @ r4 @ filler)"
    and r: "set r1 \<subseteq> set (effective True lowercase)"
      "set r2 \<subseteq> set (effective True uppercase)"
      "set r3 \<subseteq> set (effective True digits)"
      "set r4 \<subseteq> set special_chars"
      "set filler \<subseteq> set (candidate_pool rq)"
    using generate_password_parts [OF run] unfolding e by blast
  have "set pw = set (r1 @ r2 @ r3 @ r4 @ filler)"
    using m by (rule mset_eq_setD)
  moreover have "set (candidate_pool rq) \<subseteq>
      set (effective True lowercase) \<union> set (effective True uppercase) \<union>
      set (effective True digits) \<union> set special_chars \<union> set (custom_chars rq)"
    by (auto simp: candidate_pool_def class_chars_def e split: if_splits)
  ultimately have "c \<in> set (effective True lowercase) \<union> set (effective True uppercase) \<union>
      set (effective True digits) \<union> set special_chars \<union> set (custom_chars rq)"
    using c(1) r by auto
  then show ?thesis
    using c(2) ambiguous_disjoint special_not_ambiguous by blast
qed

lemma candidate_pool_empty_iff:
  "candidate_pool rq = [] \<longleftrightarrow>
     \<not> include_lowercase rq \<and> \<not> include_uppercase rq \<and> \<not> include_digits rq \<and>
     \<not> include_special rq \<and> custom_chars rq = []"
  using effective_nonempty by (auto simp: candidate_pool_def class_chars_def)

lemma plain_min_sum_eq:
  assumes "include_lowercase rq \<longrightarrow> 0 \<le> min_lowercase rq"
    and "include_uppercase rq \<longrightarrow> 0 \<le> min_uppercase rq"
    and "include_digits rq \<longrightarrow> 0 \<le> min_digits rq"
    and "include_special rq \<longrightarrow> 0 \<le> min_special rq"
  shows "int (min_sum rq) = plain_min_sum rq"
  using assms by (simp add: min_sum_def min_count_def plain_min_sum_def)

section \<open>The claims about the generator\<close>

text \<open>
  C4: for every request that does not raise, the returned password has exactly the
  requested length.
\<close>

theorem generate_password_length:
  assumes "fst (generate_password rq s) = Inr pw"
  shows "int (length pw) = length_arg rq"
proof -
  obtain r1 r2 r3 r4 filler where
    c: "\<not> length_arg rq < 4" "int (min_sum rq) \<le> length_arg rq"
    and m: "mset pw = mset (r1 @ r2 @ r3 @ r4 @ filler)"
    and l: "length r1 = min_count (include_lowercase rq) (min_lowercase rq)"
      "length r2 = min_count (include_uppercase rq) (min_uppercase rq)"
      "length r3 = min_count (include_digits rq) (min_digits rq)"
      "length r4 = min_count (include_special rq) (min_special rq)"
      "length filler = nat (length_arg rq) - min_sum rq"
    using generate_password_parts [OF assms] by blast
  have "length pw = length (r1 @ r2 @ r3 @ r4 @ filler)"
    using m by (rule mset_eq_length)
  also have "\<dots> = min_sum rq + (nat (length_arg rq) - min_sum rq)"
    using l by (simp add: min_sum_def)
  also have "\<dots> = nat (length_arg rq)"
    using c(2) by linarith
  finally show ?thesis using c(1) by simp
qed

theorem generate_password_length_witness:
  "fst (generate_password (default_request\<lparr>length_arg := 4\<rparr>) squares) = Inr ''D_c6'' \<and>
   int (length ''D_c6'') = length_arg (default_request\<lparr>length_arg := 4\<rparr>)"
proof -
  have run: "fst (generate_password (default_request\<lparr>length_arg := 4\<rparr>) squares) = Inr ''D_c6''"
    by code_simp
  show ?thesis using run generate_password_length [OF run] by simp
qed


text \<open>
  C5: for every request that does not raise and every included class, the password holds
  at least the class's minimum count of characters of the class's effective alphabet: the
  reference alphabet, without i, l, 1, L, o, 0 and O when \<^verbatim>\<open>exclude_ambiguous\<close> is
  set, and the unfiltered special characters for the special class. The witness excludes
  the ambiguous characters and counts against the filtered alphabets written out.
\<close>

theorem generate_password_minimums:
  assumes "fst (generate_password rq s) = Inr pw"
  shows "(include_lowercase rq \<longrightarrow>
            min_lowercase rq \<le>
              int (count_of (effective_alphabet (exclude_ambiguous rq) lowercase) pw)) \<and>
         (include_uppercase rq \<longrightarrow>
            min_uppercase rq \<le>
              int (count_of (effective_alphabet (exclude_ambiguous rq) uppercase) pw)) \<and>
         (include_digits rq \<longrightarrow>
            min_digits rq \<le>
              int (count_of (effective_alphabet (exclude_ambiguous rq) digits) pw)) \<and>
         (include_special rq \<longrightarrow>
            min_special rq \<le> int (count_of (set special_chars) pw))"
proof -
  obtain r1 r2 r3 r4 filler where
    m: "mset pw = mset (r1 @ r2 @ r3 @ r4 @ filler)"
    and r1: "length r1 = min_count (include_lowercase rq) (min_lowercase rq)"
      "set r1 \<subseteq> set (effective (exclude_ambiguous rq) lowercase)"
    and r2: "length r2 = min_count (include_uppercase rq) (min_uppercase rq)"
      "set r2 \<subseteq> set (effective (exclude_ambiguous rq) uppercase)"
    and r3: "length r3 = min_count (include_digits rq) (min_digits rq)"
      "set r3 \<subseteq> set (effective (exclude_ambiguous rq) digits)"
    and r4: "length r4 = min_count (include_special rq) (min_special rq)"
      "set r4 \<subseteq> set special_chars"
    using generate_password_parts [OF assms] by blast
  have split: "count_in alphabet pw =
      count_in alphabet r1 + count_in alphabet r2 + count_in alphabet r3 +
      count_in alphabet r4 + count_in alphabet filler" for alphabet
    using count_in_mset [OF m, of alphabet] by (simp add: count_in_append)
  have "length r1 \<le> count_in (effective (exclude_ambiguous rq) lowercase) pw"
    using split [of "effective (exclude_ambiguous rq) lowercase"] count_in_all [OF r1(2)] by simp
  then have 1: "length r1 \<le> count_of (effective_alphabet (exclude_ambiguous rq) lowercase) pw"
    by (simp only: count_of_set [symmetric] set_effective)
  have "length r2 \<le> count_in (effective (exclude_ambiguous rq) uppercase) pw"
    using split [of "effective (exclude_ambiguous rq) uppercase"] count_in_all [OF r2(2)] by simp
  then have 2: "length r2 \<le> count_of (effective_alphabet (exclude_ambiguous rq) uppercase) pw"
    by (simp only: count_of_set [symmetric] set_effective)
  have "length r3 \<le> count_in (effective (exclude_ambiguous rq) digits) pw"
    using split [of "effective (exclude_ambiguous rq) digits"] count_in_all [OF r3(2)] by simp
  then have 3: "length r3 \<le> count_of (effective_alphabet (exclude_ambiguous rq) digits) pw"
    by (simp only: count_of_set [symmetric] set_effective)
  have "length r4 \<le> count_in special_chars pw"
    using split [of special_chars] count_in_all [OF r4(2)] by simp
  then have 4: "length r4 \<le> count_of (set special_chars) pw"
    by (simp only: count_of_set)
  show ?thesis
    using 1 2 3 4 r1(1) r2(1) r3(1) r4(1) by (auto simp: min_count_def)
qed

theorem generate_password_minimums_witness:
  "fst (generate_password filtered_request squares) = Inr ''dU56nc+g'' \<and>
   exclude_ambiguous filtered_request \<and>
   effective_alphabet True lowercase = set ''abcdefghjkmnpqrstuvwxyz'' \<and>
   effective_alphabet True uppercase = set ''ABCDEFGHIJKMNPQRSTUVWXYZ'' \<and>
   effective_alphabet True digits = set ''23456789'' \<and>
   min_lowercase filtered_request = 4 \<and>
   (4::int) \<le> int (count_of (set ''abcdefghjkmnpqrstuvwxyz'') ''dU56nc+g'') \<and>
   (1::int) \<le> int (count_of (set ''ABCDEFGHIJKMNPQRSTUVWXYZ'') ''dU56nc+g'') \<and>
   (1::int) \<le> int (count_of (set ''23456789'') ''dU56nc+g'') \<and>
   (1::int) \<le> int (count_of (set special_chars) ''dU56nc+g'')"
proof -
  have run: "fst (generate_password filtered_request squares) = Inr ''dU56nc+g''"
    by code_simp
  have e: "exclude_ambiguous filtered_request = True"
    by (simp add: filtered_request_def)
  have a: "effective_alphabet True lowercase = set ''abcdefghjkmnpqrstuvwxyz''"
    "effective_alphabet True uppercase = set ''ABCDEFGHIJKMNPQRSTUVWXYZ''"
    "effective_alphabet True digits = set ''23456789''"
    by (auto simp: effective_alphabet_def lowercase_def uppercase_def digits_def)
  have r: "include_lowercase filtered_request" "include_uppercase filtered_request"
    "include_digits filtered_request" "include_special filtered_request"
    "min_lowercase filtered_request = 4" "min_uppercase filtered_request = 1"
    "min_digits filtered_request = 1" "min_special filtered_request = 1"
    by (simp_all add: filtered_request_def default_request_def)
  show ?thesis
    using run a r generate_password_minimums [OF run] unfolding e by simp
qed

text \<open>
  C6: for every request that does not raise, every character of the password belongs to
  the effective alphabet of an included class or to the custom characters.
\<close>

theorem generate_password_alphabet:
  assumes "fst (generate_password rq s) = Inr pw"
  shows "set pw \<subseteq>
           set (class_chars (include_lowercase rq) (effective (exclude_ambiguous rq) lowercase)) \<union>
           set (class_chars (include_uppercase rq) (effective (exclude_ambiguous rq) uppercase)) \<union>
           set (class_chars (include_digits rq) (effective (exclude_ambiguous rq) digits)) \<union>
           set (class_chars (include_special rq) special_chars) \<union>
           set (custom_chars rq)"
proof -
  obtain r1 r2 r3 r4 filler where
    m: "mset pw = mset (r1 @ r2 @ r3 @ r4 @ filler)"
    and r1: "length r1 = min_count (include_lowercase rq) (min_lowercase rq)"
      "set r1 \<subseteq> set (effective (exclude_ambiguous rq) lowercase)"
    and r2: "length r2 = min_count (include_uppercase rq) (min_uppercase rq)"
      "set r2 \<subseteq> set (effective (exclude_ambiguous rq) uppercase)"
    and r3: "length r3 = min_count (include_digits rq) (min_digits rq)"
      "set r3 \<subseteq> set (effective (exclude_ambiguous rq) digits)"
    and r4: "length r4 = min_count (include_special rq) (min_special rq)"
      "set r4 \<subseteq> set special_chars"
    and f: "set filler \<subseteq> set (candidate_pool rq)"
    using generate_password_parts [OF assms] by blast
  have in_class: "set r \<subseteq> set (class_chars included chars)"
    if "length r = min_count included minimum" "set r \<subseteq> set chars" for r included minimum chars
    using that by (cases included) (simp_all add: min_count_def class_chars_def)
  have "set pw = set (r1 @ r2 @ r3 @ r4 @ filler)"
    using m by (rule mset_eq_setD)
  then have "set pw \<subseteq> set (candidate_pool rq)"
    using in_class [OF r1] in_class [OF r2] in_class [OF r3] in_class [OF r4] f
    by (auto simp: candidate_pool_def)
  then show ?thesis by (simp add: candidate_pool_def Un_assoc)
qed

theorem generate_password_alphabet_witness:
  "fst (generate_password (default_request\<lparr>length_arg := 6, include_uppercase := False,
      include_lowercase := False, include_special := False, exclude_ambiguous := True,
      custom_chars := ''lO''\<rparr>) squares) = Inr ''l43958'' \<and>
   set ''l43958'' \<subseteq> set ''23456789'' \<union> set ''lO''"
proof -
  let ?rq = "default_request\<lparr>length_arg := 6, include_uppercase := False,
      include_lowercase := False, include_special := False, exclude_ambiguous := True,
      custom_chars := ''lO''\<rparr>"
  have run: "fst (generate_password ?rq squares) = Inr ''l43958''"
    by code_simp
  have d: "effective True digits = ''23456789''"
    by code_simp
  show ?thesis
    using run generate_password_alphabet [OF run]
    by (simp add: default_request_def class_chars_def d)
qed

text \<open>
  C7: with \<^verbatim>\<open>exclude_ambiguous\<close> set, the effective alphabets of the lowercase,
  uppercase and digit classes are disjoint from the ambiguous set, so an ambiguous
  character in a password can only be one of the custom characters, which are not filtered
  (the witness draws the custom character \<open>l\<close>).
\<close>

theorem exclude_ambiguous_classes:
  assumes "exclude_ambiguous rq"
  shows "set (effective (exclude_ambiguous rq) lowercase) \<inter> set ambiguous_chars = {} \<and>
         set (effective (exclude_ambiguous rq) uppercase) \<inter> set ambiguous_chars = {} \<and>
         set (effective (exclude_ambiguous rq) digits) \<inter> set ambiguous_chars = {} \<and>
         (\<forall>s pw. fst (generate_password rq s) = Inr pw \<longrightarrow>
            (\<forall>c \<in> set pw. c \<in> set ambiguous_chars \<longrightarrow> c \<in> set (custom_chars rq)))"
proof -
  have "exclude_ambiguous rq = True" using assms by simp
  then show ?thesis
    using ambiguous_disjoint ambiguous_from_custom [OF _ assms] by simp
qed

theorem exclude_ambiguous_classes_witness:
  "exclude_ambiguous (default_request\<lparr>length_arg := 6, include_uppercase := False,
      include_lowercase := False, include_special := False, exclude_ambiguous := True,
      custom_chars := ''lO''\<rparr>) \<and>
   fst (generate_password (default_request\<lparr>length_arg := 6, include_uppercase := False,
      include_lowercase := False, include_special := False, exclude_ambiguous := True,
      custom_chars := ''lO''\<rparr>) squares) = Inr ''l43958'' \<and>
   CHR ''l'' \<in> set ''l43958'' \<and> CHR ''l'' \<in> set ambiguous_chars \<and> CHR ''l'' \<in> set ''lO'' \<and>
   set (effective True lowercase) \<inter> set ambiguous_chars = {} \<and>
   set (effective True uppercase) \<inter> set ambiguous_chars = {} \<and>
   set (effective True digits) \<inter> set ambiguous_chars = {}"
proof -
  let ?rq = "default_request\<lparr>length_arg := 6, include_uppercase := False,
      include_lowercase := False, include_special := False, exclude_ambiguous := True,
      custom_chars := ''lO''\<rparr>"
  have e: "exclude_ambiguous ?rq" by simp
  have run: "fst (generate_password ?rq squares) = Inr ''l43958''"
    by code_simp
  have a: "CHR ''l'' \<in> set ambiguous_chars" by (simp add: ambiguous_chars_def)
  show ?thesis
    using e run a exclude_ambiguous_classes [OF e] by simp
qed

text \<open>
  C10: with \<^verbatim>\<open>exclude_ambiguous\<close> set and no custom characters, no ambiguous
  character occurs anywhere in the password, the special characters being disjoint from
  the ambiguous set.
\<close>

theorem exclude_ambiguous_password:
  assumes "fst (generate_password rq s) = Inr pw" and "exclude_ambiguous rq"
    and "custom_chars rq = []"
  shows "set pw \<inter> set ambiguous_chars = {} \<and> set special_chars \<inter> set ambiguous_chars = {}"
  using ambiguous_from_custom [OF assms(1,2)] assms(3) special_not_ambiguous by auto

theorem exclude_ambiguous_password_witness:
  "fst (generate_password (default_request\<lparr>length_arg := 6, exclude_ambiguous := True\<rparr>) squares)
     = Inr ''vc_ED8'' \<and>
   exclude_ambiguous (default_request\<lparr>length_arg := 6, exclude_ambiguous := True\<rparr>) \<and>
   custom_chars (default_request\<lparr>length_arg := 6, exclude_ambiguous := True\<rparr>) = [] \<and>
   set ''vc_ED8'' \<inter> set ambiguous_chars = {}"
proof -
  let ?rq = "default_request\<lparr>length_arg := 6, exclude_ambiguous := True\<rparr>"
  have run: "fst (generate_password ?rq squares) = Inr ''vc_ED8''"
    by code_simp
  have e: "exclude_ambiguous ?rq" by simp
  have c: "custom_chars ?rq = []" by (simp add: default_request_def)
  show ?thesis
    using run e c exclude_ambiguous_password [OF run e c] by simp
qed

text \<open>
  C9: a negative minimum count behaves exactly as the count zero: the call returns the
  same result and leaves the randomness source in the same state.
\<close>

theorem negative_minimum_as_zero:
  "(min_lowercase rq < 0 \<longrightarrow>
      generate_password rq s = generate_password (rq\<lparr>min_lowercase := 0\<rparr>) s) \<and>
   (min_uppercase rq < 0 \<longrightarrow>
      generate_password rq s = generate_password (rq\<lparr>min_uppercase := 0\<rparr>) s) \<and>
   (min_digits rq < 0 \<longrightarrow>
      generate_password rq s = generate_password (rq\<lparr>min_digits := 0\<rparr>) s) \<and>
   (min_special rq < 0 \<longrightarrow>
      generate_password rq s = generate_password (rq\<lparr>min_special := 0\<rparr>) s)"
proof -
  have z: "nat m = nat 0" if "m < 0" for m :: int using that by simp
  have f: "finish (rq\<lparr>min_lowercase := a\<rparr>) = finish rq"
    "finish (rq\<lparr>min_uppercase := a\<rparr>) = finish rq"
    "finish (rq\<lparr>min_digits := a\<rparr>) = finish rq"
    "finish (rq\<lparr>min_special := a\<rparr>) = finish rq" for a
    by (rule ext, rule ext, simp add: finish_def Let_def)+
  have b: "class_block included chars m = class_block included chars 0" if "m < 0"
    for included chars and m :: int
    by (rule ext, rule ext) (simp only: class_block_def z [OF that])
  show ?thesis
    by (simp add: generate_password_def build_def f b)
qed

theorem negative_minimum_as_zero_witness:
  "min_lowercase negative_request < 0 \<and> min_uppercase negative_request < 0 \<and>
   min_digits negative_request < 0 \<and> min_special negative_request < 0 \<and>
   generate_password negative_request squares =
     generate_password (negative_request\<lparr>min_lowercase := 0\<rparr>) squares \<and>
   generate_password negative_request squares =
     generate_password (negative_request\<lparr>min_uppercase := 0\<rparr>) squares \<and>
   generate_password negative_request squares =
     generate_password (negative_request\<lparr>min_digits := 0\<rparr>) squares \<and>
   generate_password negative_request squares =
     generate_password (negative_request\<lparr>min_special := 0\<rparr>) squares \<and>
   fst (generate_password negative_request squares) = Inr ''dlcsg''"
proof -
  have n: "min_lowercase negative_request < 0" "min_uppercase negative_request < 0"
    "min_digits negative_request < 0" "min_special negative_request < 0"
    by (simp_all add: negative_request_def)
  have run: "fst (generate_password negative_request squares) = Inr ''dlcsg''"
    by code_simp
  show ?thesis
    using n run negative_minimum_as_zero [of negative_request squares] by blast
qed

text \<open>
  C1, as stated, fails: the request of length 4 whose minimum counts add up to 5 raises only
  after five values have been drawn.
\<close>

theorem error_draws_counterexample:
  "fst (generate_password (default_request\<lparr>length_arg := 4, min_lowercase := 2\<rparr>) squares)
     = Inl (ValueError_minimum 5 4) \<and>
   draws squares = 0 \<and>
   draws (snd (generate_password (default_request\<lparr>length_arg := 4, min_lowercase := 2\<rparr>) squares))
     = 5"
  by code_simp

text \<open>
  C1, amended: a call that raises because the length is below 4 or the pool is empty has
  drawn nothing; a call that raises because the minimum counts exceed the length has drawn
  exactly the required characters, one draw each, and nothing else.
\<close>

theorem generate_password_error_draws:
  assumes "fst (generate_password rq s) = Inl e"
  shows "snd (generate_password rq s) =
           advance (if length_arg rq < 4 \<or> candidate_pool rq = [] then 0 else min_sum rq) s \<and>
         (\<not> (length_arg rq < 4 \<or> candidate_pool rq = []) \<longrightarrow> length_arg rq < int (min_sum rq))"
proof -
  have g: "generate_password rq s = (Inl e, snd (generate_password rq s))"
    using assms by (metis prod.collapse)
  consider "length_arg rq < 4" | "\<not> length_arg rq < 4" "candidate_pool rq = []"
    | "\<not> length_arg rq < 4" "candidate_pool rq \<noteq> []" "length_arg rq < int (min_sum rq)"
    using generate_password_Inl [OF g] by blast
  then show ?thesis
  proof cases
    case 1
    then show ?thesis using generate_password_short [OF 1, of s] by simp
  next
    case 2
    then show ?thesis using generate_password_no_types [OF 2, of s] by simp
  next
    case 3
    then show ?thesis using generate_password_minimum [OF 3, of s] by simp
  qed
qed

theorem generate_password_error_draws_witness:
  "fst (generate_password (default_request\<lparr>length_arg := 4, min_lowercase := 2\<rparr>) squares)
     = Inl (ValueError_minimum 5 4) \<and>
   snd (generate_password (default_request\<lparr>length_arg := 4, min_lowercase := 2\<rparr>) squares)
     = advance 5 squares \<and>
   fst (generate_password (default_request\<lparr>length_arg := 3\<rparr>) squares) = Inl ValueError_length \<and>
   snd (generate_password (default_request\<lparr>length_arg := 3\<rparr>) squares) = squares"
proof -
  let ?rq = "default_request\<lparr>length_arg := 4, min_lowercase := 2\<rparr>"
  let ?rq' = "default_request\<lparr>length_arg := 3\<rparr>"
  have run: "fst (generate_password ?rq squares) = Inl (ValueError_minimum 5 4)"
    by code_simp
  have run': "fst (generate_password ?rq' squares) = Inl ValueError_length"
    by code_simp
  have p: "candidate_pool ?rq \<noteq> []" by code_simp
  have m: "min_sum ?rq = 5" by code_simp
  show ?thesis
    using run run' generate_password_error_draws [OF run] generate_password_error_draws [OF run'] p m
    by simp
qed

text \<open>
  C3, as stated, fails: with the minimum counts \<open>-3\<close>, 5, 1 and 1 and length 4 the sum of the
  minimum counts is 4, which does not exceed the length, the pool is not empty, and yet the
  call raises.
\<close>

theorem raises_iff_counterexample:
  "fst (generate_password
          (default_request\<lparr>length_arg := 4, min_uppercase := 5, min_lowercase := -3\<rparr>) squares)
     = Inl (ValueError_minimum 7 4) \<and>
   \<not> (length_arg (default_request\<lparr>length_arg := 4, min_uppercase := 5, min_lowercase := -3\<rparr>) < 4 \<or>
      candidate_pool (default_request\<lparr>length_arg := 4, min_uppercase := 5, min_lowercase := -3\<rparr>) = [] \<or>
      plain_min_sum (default_request\<lparr>length_arg := 4, min_uppercase := 5, min_lowercase := -3\<rparr>)
        > length_arg (default_request\<lparr>length_arg := 4, min_uppercase := 5, min_lowercase := -3\<rparr>))"
  by code_simp

text \<open>
  C3, amended: the call raises exactly when the length is below 4, or the pool is empty, or
  the minimum counts of the included classes, each negative count taken as zero, add up to
  more than the length; otherwise it returns a password. The error is never the
  \<^verbatim>\<open>IndexError\<close> of a choice from an empty sequence. The pool is empty exactly when
  no class is included and there are no custom characters, and for non-negative counts the
  sum is the plain sum.
\<close>

theorem generate_password_raises_iff:
  "((\<exists>e. fst (generate_password rq s) = Inl e) \<longleftrightarrow>
      length_arg rq < 4 \<or> candidate_pool rq = [] \<or> length_arg rq < int (min_sum rq)) \<and>
   ((\<exists>pw. fst (generate_password rq s) = Inr pw) \<longleftrightarrow>
      \<not> (length_arg rq < 4 \<or> candidate_pool rq = [] \<or> length_arg rq < int (min_sum rq))) \<and>
   fst (generate_password rq s) \<noteq> Inl IndexError_empty \<and>
   (candidate_pool rq = [] \<longleftrightarrow>
      \<not> include_lowercase rq \<and> \<not> include_uppercase rq \<and> \<not> include_digits rq \<and>
      \<not> include_special rq \<and> custom_chars rq = []) \<and>
   ((include_lowercase rq \<longrightarrow> 0 \<le> min_lowercase rq) \<and>
    (include_uppercase rq \<longrightarrow> 0 \<le> min_uppercase rq) \<and>
    (include_digits rq \<longrightarrow> 0 \<le> min_digits rq) \<and>
    (include_special rq \<longrightarrow> 0 \<le> min_special rq) \<longrightarrow>
    int (min_sum rq) = plain_min_sum rq)"
proof -
  let ?bad = "length_arg rq < 4 \<or> candidate_pool rq = [] \<or> length_arg rq < int (min_sum rq)"
  have ok: "\<exists>pw. fst (generate_password rq s) = Inr pw" if "\<not> ?bad"
  proof -
    from that have "\<not> length_arg rq < 4" "candidate_pool rq \<noteq> []"
      "int (min_sum rq) \<le> length_arg rq" by auto
    from generate_password_ok [OF this, of s] show ?thesis by auto
  qed
  have err: "fst (generate_password rq s) = Inl ValueError_length \<or>
      fst (generate_password rq s) = Inl ValueError_no_types \<or>
      fst (generate_password rq s) = Inl (ValueError_minimum (min_sum rq) (length_arg rq))" if bad: ?bad
  proof -
    consider "length_arg rq < 4" | "\<not> length_arg rq < 4" "candidate_pool rq = []"
      | "\<not> length_arg rq < 4" "candidate_pool rq \<noteq> []" "length_arg rq < int (min_sum rq)"
      using bad by blast
    then show ?thesis
    proof cases
      case 1
      then show ?thesis using generate_password_short [OF 1, of s] by simp
    next
      case 2
      then show ?thesis using generate_password_no_types [OF 2, of s] by simp
    next
      case 3
      then show ?thesis using generate_password_minimum [OF 3, of s] by simp
    qed
  qed
  have 1: "(\<exists>e. fst (generate_password rq s) = Inl e) \<longleftrightarrow> ?bad"
    using ok err by (cases ?bad) auto
  have 2: "(\<exists>pw. fst (generate_password rq s) = Inr pw) \<longleftrightarrow> \<not> ?bad"
    using ok err by (cases ?bad) auto
  have 3: "fst (generate_password rq s) \<noteq> Inl IndexError_empty"
    using ok err by (cases ?bad) auto
  show ?thesis
    using 1 2 3 candidate_pool_empty_iff [of rq] plain_min_sum_eq [of rq] by blast
qed

theorem generate_password_raises_iff_witness:
  "(\<exists>e. fst (generate_password
          (default_request\<lparr>length_arg := 4, min_uppercase := 5, min_lowercase := -3\<rparr>) squares)
        = Inl e) \<and>
   length_arg (default_request\<lparr>length_arg := 4, min_uppercase := 5, min_lowercase := -3\<rparr>)
     < int (min_sum (default_request\<lparr>length_arg := 4, min_uppercase := 5, min_lowercase := -3\<rparr>)) \<and>
   (\<exists>pw. fst (generate_password (default_request\<lparr>length_arg := 4\<rparr>) squares) = Inr pw) \<and>
   int (min_sum (default_request\<lparr>length_arg := 4\<rparr>)) =
     plain_min_sum (default_request\<lparr>length_arg := 4\<rparr>) \<and>
   fst (generate_password (default_request\<lparr>include_lowercase := False,
      include_uppercase := False, include_digits := False, include_special := False\<rparr>) squares)
     = Inl ValueError_no_types"
proof -
  let ?rq = "default_request\<lparr>length_arg := 4, min_uppercase := 5, min_lowercase := -3\<rparr>"
  let ?rq' = "default_request\<lparr>length_arg := 4\<rparr>"
  have a: "length_arg ?rq < int (min_sum ?rq)" by code_simp
  have b: "\<not> (length_arg ?rq' < 4 \<or> candidate_pool ?rq' = [] \<or> length_arg ?rq' < int (min_sum ?rq'))"
    by code_simp
  have c: "(include_lowercase ?rq' \<longrightarrow> 0 \<le> min_lowercase ?rq') \<and>
    (include_uppercase ?rq' \<longrightarrow> 0 \<le> min_uppercase ?rq') \<and>
    (include_digits ?rq' \<longrightarrow> 0 \<le> min_digits ?rq') \<and>
    (include_special ?rq' \<longrightarrow> 0 \<le> min_special ?rq')"
    by (simp add: default_request_def)
  have d: "fst (generate_password (default_request\<lparr>include_lowercase := False,
      include_uppercase := False, include_digits := False, include_special := False\<rparr>) squares)
     = Inl ValueError_no_types"
    by code_simp
  show ?thesis
    using a b c d generate_password_raises_iff [of ?rq squares]
      generate_password_raises_iff [of ?rq' squares]
    by blast
qed

section \<open>Facts about the analyzer\<close>

text \<open>
  Two bounds on \<open>log\<^sub>2 26\<close>, from \<open>2\<^sup>4\<^sup>7 < 26\<^sup>1\<^sup>0\<close> and \<open>26\<^sup>8\<^sup>0 < 2\<^sup>3\<^sup>7\<^sup>7\<close>.
\<close>

lemma log2_26_lower: "4.7 < log 2 (26::real)"
proof -
  have "(2 powr (47/10)) ^ 10 = (2::real) powr 47"
    by (simp add: powr_power)
  also have "\<dots> = 2 ^ 47"
    using powr_realpow [of "2::real" 47] by simp
  also have "\<dots> < (26::real) ^ 10" by simp
  finally have "(2::real) powr (47/10) < 26"
    by (rule power_less_imp_less_base) simp
  then have "47/10 < log 2 (26::real)"
    by (intro iffD2 [OF less_log_iff]) simp_all
  then show ?thesis by simp
qed

lemma log2_26_upper: "log 2 (26::real) < 4.7125"
proof -
  have "(26::real) ^ 80 < 2 ^ 377" by simp
  also have "\<dots> = (2::real) powr 377"
    using powr_realpow [of "2::real" 377] by simp
  also have "\<dots> = (2 powr (377/80)) ^ 80"
    by (simp add: powr_power)
  finally have "(26::real) < 2 powr (377/80)"
    by (rule power_less_imp_less_base) simp
  then have "log 2 (26::real) < 377/80"
    by (intro iffD2 [OF log_less_iff]) simp_all
  then show ?thesis by simp
qed

lemma count_true:
  "(let n = (0::nat);
        n = (if b1 then n + 1 else n);
        n = (if b2 then n + 1 else n);
        n = (if b3 then n + 1 else n);
        n = (if b4 then n + 1 else n);
        n = (if b5 then n + 1 else n);
        n = (if b6 then n + 1 else n);
        n = (if b7 then n + 1 else n);
        n = (if b8 then n + 1 else n)
    in n) = length (filter id [b1, b2, b3, b4, b5, b6, b7, b8])"
  by (simp add: Let_def)

lemma check_strength_vars_eq:
  "check_strength_vars pw =
     Inr ((if char_pool_size (initial_analysis pw) > 0
           then (initial_analysis pw)\<lparr>entropy :=
                  real (length pw) * log 2 (real (char_pool_size (initial_analysis pw)))\<rparr>
           else initial_analysis pw)
          \<lparr>strength := label (score pw
             (if char_pool_size (initial_analysis pw) > 0
              then (initial_analysis pw)\<lparr>entropy :=
                     real (length pw) * log 2 (real (char_pool_size (initial_analysis pw)))\<rparr>
              else initial_analysis pw))\<rparr>,
          char_pool_size (initial_analysis pw),
          score pw
             (if char_pool_size (initial_analysis pw) > 0
              then (initial_analysis pw)\<lparr>entropy :=
                     real (length pw) * log 2 (real (char_pool_size (initial_analysis pw)))\<rparr>
              else initial_analysis pw))"
  by (simp add: check_strength_vars_def log2_def Let_def)

lemma score_eq:
  "score pw a =
     length (filter id
       [8 \<le> length_key a, 12 \<le> length_key a, has_lowercase a, has_uppercase a,
        has_digits a, has_special a, real (length pw) * 0.8 \<le> real (unique_chars a),
        60 \<le> entropy a])"
  unfolding score_def by (rule count_true)

lemma label_cases:
  "(n \<le> 2 \<longrightarrow> label n = ''Very Weak'') \<and>
   (3 \<le> n \<and> n \<le> 4 \<longrightarrow> label n = ''Weak'') \<and>
   (5 \<le> n \<and> n \<le> 6 \<longrightarrow> label n = ''Moderate'') \<and>
   (n = 7 \<longrightarrow> label n = ''Strong'') \<and>
   (8 \<le> n \<longrightarrow> label n = ''Very Strong'')"
  by (simp add: label_def)

lemma alphabets_disjoint:
  "set lowercase \<inter> set uppercase = {}" "set lowercase \<inter> set digits = {}"
  "set lowercase \<inter> set special_chars = {}"
  by (simp_all add: lowercase_def uppercase_def digits_def special_chars_def)

lemma special_chars_length: "length special_chars = 26"
  by (simp add: special_chars_def)

lemma lowercase_only:
  assumes "pw \<noteq> []" and "set pw \<subseteq> set lowercase"
  shows "has_lowercase (initial_analysis pw)" "\<not> has_uppercase (initial_analysis pw)"
    "\<not> has_digits (initial_analysis pw)" "\<not> has_special (initial_analysis pw)"
proof -
  obtain c where "c \<in> set pw" using assms(1) by (cases pw) auto
  then show "has_lowercase (initial_analysis pw)"
    using assms(2) by (auto simp: initial_analysis_def list_ex_iff)
  show "\<not> has_uppercase (initial_analysis pw)" "\<not> has_digits (initial_analysis pw)"
    "\<not> has_special (initial_analysis pw)"
    using assms(2) alphabets_disjoint by (auto simp: initial_analysis_def list_ex_iff)
qed

section \<open>The claims about the analyzer\<close>

text \<open>
  C2, as stated, fails: on the empty string the score is 1, not 0, because the test
  \<^verbatim>\<open>unique_chars >= len(password) * 0.8\<close> compares 0 with 0 and succeeds.
\<close>

theorem check_strength_empty_counterexample:
  "score_of [] = Some 1 \<and> score_of [] \<noteq> Some 0"
  by (simp add: score_of_def check_strength_vars_def initial_analysis_def char_pool_size_def
      score_def Let_def)

text \<open>
  C2, amended: for the empty string the report has length 0, no class present, entropy 0
  and the label \<open>Very Weak\<close>, with pool size 0 and score 1; and every string yields a
  report, \<^verbatim>\<open>math.log2\<close> being called on a positive pool size only.
\<close>

theorem check_strength_total:
  "check_strength_vars [] =
     Inr (\<lparr> length_key = 0, has_lowercase = False, has_uppercase = False, has_digits = False,
            has_special = False, has_ambiguous = False, unique_chars = 0, entropy = 0,
            strength = ''Very Weak'' \<rparr>, 0, 1) \<and>
   check_strength [] =
     Inr \<lparr> length_key = 0, has_lowercase = False, has_uppercase = False, has_digits = False,
           has_special = False, has_ambiguous = False, unique_chars = 0, entropy = 0,
           strength = ''Very Weak'' \<rparr> \<and>
   (\<forall>pw. \<exists>a. check_strength pw = Inr a \<and> length_key a = length pw)"
proof -
  have 1: "check_strength_vars [] =
     Inr (\<lparr> length_key = 0, has_lowercase = False, has_uppercase = False, has_digits = False,
            has_special = False, has_ambiguous = False, unique_chars = 0, entropy = 0,
            strength = ''Very Weak'' \<rparr>, 0, 1)"
    by (simp add: check_strength_vars_def initial_analysis_def char_pool_size_def
        score_def label_def Let_def)
  have 2: "\<exists>a. check_strength pw = Inr a \<and> length_key a = length pw" for pw
    unfolding check_strength_def check_strength_vars_eq
    by (simp add: initial_analysis_def)
  show ?thesis using 1 2 by (simp add: check_strength_def)
qed

theorem check_strength_total_witness:
  "\<exists>a. check_strength ''abcdefgh'' = Inr a \<and> length_key a = 8"
  using check_strength_total by (auto dest: spec [of _ "''abcdefgh''"])

text \<open>
  C8: the score is the number of the eight predicates that hold, at most 8, and the label
  follows the score; an all-lowercase string of 8 distinct characters has pool size 26,
  entropy \<open>8 \<sqdot> log\<^sub>2 26\<close>, which lies between 37.6 and 37.7, score 3 and the label
  \<open>Weak\<close>.
\<close>

theorem check_strength_score:
  "\<exists>a pool n.
     check_strength_vars pw = Inr (a, pool, n) \<and> check_strength pw = Inr a \<and>
     length_key a = length pw \<and>
     (has_lowercase a \<longleftrightarrow> (\<exists>c \<in> set pw. c \<in> set lowercase)) \<and>
     (has_uppercase a \<longleftrightarrow> (\<exists>c \<in> set pw. c \<in> set uppercase)) \<and>
     (has_digits a \<longleftrightarrow> (\<exists>c \<in> set pw. c \<in> set digits)) \<and>
     (has_special a \<longleftrightarrow> (\<exists>c \<in> set pw. c \<in> set special_chars)) \<and>
     unique_chars a = card (set pw) \<and>
     pool = (if has_lowercase a then 26 else 0) + (if has_uppercase a then 26 else 0) +
            (if has_digits a then 10 else 0) + (if has_special a then 26 else 0) \<and>
     entropy a = (if pool > 0 then real (length pw) * log 2 (real pool) else 0) \<and>
     n = length (filter id
           [8 \<le> length pw, 12 \<le> length pw, has_lowercase a, has_uppercase a, has_digits a,
            has_special a, 0.8 * real (length pw) \<le> real (unique_chars a),
            60 \<le> entropy a]) \<and>
     n \<le> 8 \<and>
     (n \<le> 2 \<longrightarrow> strength a = ''Very Weak'') \<and>
     (3 \<le> n \<and> n \<le> 4 \<longrightarrow> strength a = ''Weak'') \<and>
     (5 \<le> n \<and> n \<le> 6 \<longrightarrow> strength a = ''Moderate'') \<and>
     (n = 7 \<longrightarrow> strength a = ''Strong'') \<and>
     (n = 8 \<longrightarrow> strength a = ''Very Strong'') \<and>
     (length pw = 8 \<and> distinct pw \<and> set pw \<subseteq> set lowercase \<longrightarrow>
        pool = 26 \<and> entropy a = 8 * log 2 26 \<and> 37.6 < entropy a \<and> entropy a < 37.7 \<and>
        n = 3 \<and> strength a = ''Weak'')"
proof -
  define a0 where "a0 = initial_analysis pw"
  define pool where "pool = char_pool_size a0"
  define a1 where
    "a1 = (if pool > 0 then a0\<lparr>entropy := real (length pw) * log 2 (real pool)\<rparr> else a0)"
  define n where "n = score pw a1"
  define a where "a = a1\<lparr>strength := label n\<rparr>"
  have vars: "check_strength_vars pw = Inr (a, pool, n)"
    unfolding check_strength_vars_eq a_def n_def a1_def pool_def a0_def by simp
  then have chk: "check_strength pw = Inr a"
    by (simp add: check_strength_def)
  have flags: "has_lowercase a = has_lowercase a0" "has_uppercase a = has_uppercase a0"
    "has_digits a = has_digits a0" "has_special a = has_special a0"
    "length_key a = length pw" "unique_chars a = length (remdups pw)"
    "length_key a1 = length pw" "unique_chars a1 = unique_chars a"
    "has_lowercase a1 = has_lowercase a" "has_uppercase a1 = has_uppercase a"
    "has_digits a1 = has_digits a" "has_special a1 = has_special a"
    "entropy a1 = entropy a" "strength a = label n"
    by (simp_all add: a_def a1_def a0_def initial_analysis_def)
  have ex: "(has_lowercase a \<longleftrightarrow> (\<exists>c \<in> set pw. c \<in> set lowercase))"
    "(has_uppercase a \<longleftrightarrow> (\<exists>c \<in> set pw. c \<in> set uppercase))"
    "(has_digits a \<longleftrightarrow> (\<exists>c \<in> set pw. c \<in> set digits))"
    "(has_special a \<longleftrightarrow> (\<exists>c \<in> set pw. c \<in> set special_chars))"
    by (simp_all add: flags a0_def initial_analysis_def list_ex_iff)
  have uniq: "unique_chars a = card (set pw)"
    by (simp add: flags card_set)
  have pool: "pool = (if has_lowercase a then 26 else 0) + (if has_uppercase a then 26 else 0) +
      (if has_digits a then 10 else 0) + (if has_special a then 26 else 0)"
    by (simp add: pool_def char_pool_size_def flags special_chars_length Let_def)
  have ent: "entropy a = (if pool > 0 then real (length pw) * log 2 (real pool) else 0)"
    by (simp add: a_def a1_def a0_def initial_analysis_def)
  have n: "n = length (filter id
           [8 \<le> length pw, 12 \<le> length pw, has_lowercase a, has_uppercase a, has_digits a,
            has_special a, 0.8 * real (length pw) \<le> real (unique_chars a),
            60 \<le> entropy a])"
    unfolding n_def score_eq flags by (simp only: mult.commute)
  have n8: "n \<le> 8"
    unfolding n by (rule order_trans [OF length_filter_le]) simp
  have lab: "n \<le> 2 \<longrightarrow> strength a = ''Very Weak''"
     "3 \<le> n \<and> n \<le> 4 \<longrightarrow> strength a = ''Weak''"
     "5 \<le> n \<and> n \<le> 6 \<longrightarrow> strength a = ''Moderate''"
     "n = 7 \<longrightarrow> strength a = ''Strong''"
     "n = 8 \<longrightarrow> strength a = ''Very Strong''"
    using label_cases [of n] by (auto simp: flags)
  have "pool = 26 \<and> entropy a = 8 * log 2 26 \<and> 37.6 < entropy a \<and> entropy a < 37.7 \<and>
        n = 3 \<and> strength a = ''Weak''"
    if h: "length pw = 8" "distinct pw" "set pw \<subseteq> set lowercase"
  proof -
    have "pw \<noteq> []" using h(1) by auto
    from lowercase_only [OF this h(3)]
    have f: "has_lowercase a" "\<not> has_uppercase a" "\<not> has_digits a" "\<not> has_special a"
      by (simp_all add: flags a0_def)
    have p: "pool = 26" using pool f by simp
    have e: "entropy a = 8 * log 2 26" using ent p h(1) by simp
    have u: "unique_chars a = 8" using h(1,2) by (simp add: flags distinct_remdups_id)
    have b: "37.6 < entropy a" "entropy a < 37.7"
      using log2_26_lower log2_26_upper unfolding e by simp_all
    then have "\<not> 60 \<le> entropy a" by simp
    then have "n = 3" unfolding n using f u h(1) by simp
    then show ?thesis using p e b lab(2) by simp
  qed
  then have low: "length pw = 8 \<and> distinct pw \<and> set pw \<subseteq> set lowercase \<longrightarrow>
        pool = 26 \<and> entropy a = 8 * log 2 26 \<and> 37.6 < entropy a \<and> entropy a < 37.7 \<and>
        n = 3 \<and> strength a = ''Weak''"
    by blast
  note len = flags(5)
  show ?thesis
    by (rule exI [of _ a], rule exI [of _ pool], rule exI [of _ n])
      (intro conjI; fact)
qed

theorem check_strength_score_witness:
  "length ''abcdefgh'' = 8 \<and> distinct ''abcdefgh'' \<and> set ''abcdefgh'' \<subseteq> set lowercase \<and>
   (\<exists>a. check_strength_vars ''abcdefgh'' = Inr (a, 26, 3) \<and> strength a = ''Weak'' \<and>
      entropy a = 8 * log 2 26)"
proof -
  have h: "length ''abcdefgh'' = 8 \<and> distinct ''abcdefgh'' \<and> set ''abcdefgh'' \<subseteq> set lowercase"
    by (simp add: lowercase_def)
  obtain a pool n where r: "check_strength_vars ''abcdefgh'' = Inr (a, pool, n)"
    "length ''abcdefgh'' = 8 \<and> distinct ''abcdefgh'' \<and> set ''abcdefgh'' \<subseteq> set lowercase \<longrightarrow>
        pool = 26 \<and> entropy a = 8 * log 2 26 \<and> 37.6 < entropy a \<and> entropy a < 37.7 \<and>
        n = 3 \<and> strength a = ''Weak''"
    using check_strength_score [of "''abcdefgh''"] by (elim exE conjE) (rule that)
  from r(2) h have "pool = 26" "n = 3" "strength a = ''Weak''" "entropy a = 8 * log 2 26"
    by blast+
  then show ?thesis using h r(1) by blast
qed

end
